theory Spec2Isabelle
  imports Complex_Main
begin

section \<open>The batch processor of batchprocessor.py\<close>

text \<open>
  The module defines the class \<open>BatchProcessor\<close> (constructor, \<open>get_batches\<close>,
  \<open>process\<close>, \<open>_save_to_file\<close>) and the decorator \<open>batch_process\<close>. The input iterable
  is a finite sequence and is modelled as a list; the generator \<open>get_batches\<close> has no effect
  of its own, so the lazy sequence of batches it yields is modelled as the list of batches.
\<close>

subsection \<open>The object: the fields stored by the constructor\<close>

record ('b, 'd) batch_processor =
  iterable :: "'b list"
  batch_size :: int
  progress :: bool
  save_to_file :: "string option"
  retries :: int
  retry_delay :: 'd

text \<open>\<open>__init__\<close> stores its six arguments unchanged; it checks none of them.\<close>

definition BatchProcessor ::
  "'b list \<Rightarrow> int \<Rightarrow> bool \<Rightarrow> string option \<Rightarrow> int \<Rightarrow> 'd \<Rightarrow> ('b, 'd) batch_processor" where
  "BatchProcessor it bsz prog sv rt dl =
     \<lparr>iterable = it, batch_size = bsz, progress = prog, save_to_file = sv,
      retries = rt, retry_delay = dl\<rparr>"

subsection \<open>get_batches\<close>

text \<open>
  The loop of \<open>get_batches\<close>: \<open>batch\<close> is the list under construction. Each item is
  appended; when the length then equals \<open>batch_size\<close> the batch is yielded and a fresh one
  started. After the loop a non-empty rest is yielded. The comparison is an equality of
  integers, so a batch size that no length can reach never triggers a yield inside the loop.
\<close>

fun get_batches_loop :: "int \<Rightarrow> 'b list \<Rightarrow> 'b list \<Rightarrow> 'b list list" where
  "get_batches_loop bsz batch [] = (if batch \<noteq> [] then [batch] else [])"
| "get_batches_loop bsz batch (item # rest) =
     (let batch' = batch @ [item]
      in if int (length batch') = bsz then batch' # get_batches_loop bsz [] rest
         else get_batches_loop bsz batch' rest)"

definition get_batches :: "('b, 'd) batch_processor \<Rightarrow> 'b list list" where
  "get_batches self = get_batches_loop (batch_size self) [] (iterable self)"

subsection \<open>The processing function and the observable effects\<close>

text \<open>
  \<open>func\<close> is an arbitrary Python callable: it returns a value or raises, and it need not
  answer the same way twice on the same batch (the retry loop exists for that reason). The
  model therefore gives \<open>func\<close> the position of the call, the index \<open>i\<close> of the batch in
  \<open>enumerate(batches)\<close> and the attempt number, besides the batch itself; the position
  stands for whatever state the callable depends on, and the extra arguments
  \<open>*args, **kwargs\<close>, the same at every call, are part of \<open>func\<close>. \<open>Raise e\<close> is an
  exception that is an instance of \<open>Exception\<close>, the class the handler in \<open>process\<close>
  catches.
\<close>

datatype ('r, 'e) outcome = Return 'r | Raise 'e

type_synonym ('b, 'r, 'e) proc = "nat \<Rightarrow> nat \<Rightarrow> 'b list \<Rightarrow> ('r, 'e) outcome"

text \<open>
  What a run does besides returning, in the order in which it happens:
  \<^item> \<open>Attempt_msg n m\<close>: \<open>print(f"\nProcessing Batch {i+1}, Attempt {attempt+1}")\<close>, with
    the two numbers printed;
  \<^item> \<open>Call i a batch\<close>: \<open>func\<close> is invoked on \<open>batch\<close>, at attempt \<open>a\<close> of iteration \<open>i\<close>;
  \<^item> \<open>Error_msg e d\<close>: \<open>print(f"Error: {e}. Retrying in {self.retry_delay} seconds...")\<close>;
  \<^item> \<open>Sleep i d\<close>: \<open>time.sleep(self.retry_delay)\<close>, during iteration \<open>i\<close>;
  \<^item> \<open>Failed_msg n r\<close>: \<open>print(f"Batch {i+1} failed after {self.retries} retries.")\<close>;
  \<^item> \<open>File_write path result indent\<close>: \<open>open(batch_file, "w")\<close> followed by
    \<open>json.dump(result, f, indent=4)\<close>;
  \<^item> \<open>Saved_msg n path\<close>: \<open>print(f"Batch {batch_number} result saved to {batch_file}")\<close>;
  \<^item> \<open>Complete_msg\<close>: \<open>print("Processing complete.")\<close>.
  The library calls \<open>print\<close>, \<open>time.sleep\<close>, \<open>open\<close> and \<open>json.dump\<close> are taken to complete
  normally: the delay is a duration, the results can be serialised and the file can be
  written.
\<close>

datatype ('b, 'r, 'e, 'd) event =
    Attempt_msg nat nat
  | Call nat nat "'b list"
  | Error_msg 'e 'd
  | Sleep nat 'd
  | Failed_msg nat int
  | File_write string 'r nat
  | Saved_msg nat string
  | Complete_msg

text \<open>The exceptions that leave \<open>process\<close> or \<open>_save_to_file\<close>.\<close>

datatype error = UnboundLocalError | TypeError

subsection \<open>os.path.splitext and the formatting of the batch number\<close>

text \<open>
  \<open>str.rfind\<close>: the highest index at which the character occurs, or \<open>-1\<close>.
\<close>

fun rfind :: "string \<Rightarrow> char \<Rightarrow> int" where
  "rfind [] c = - 1"
| "rfind (x # xs) c =
     (let r = rfind xs c in if 0 \<le> r then r + 1 else if x = c then 0 else - 1)"

text \<open>
  \<open>os.path.splitext\<close> of the standard library, in its POSIX form (separator \<open>/\<close>, no
  alternative separator, extension separator \<open>.\<close>): the extension starts at the last dot,
  provided that dot comes after the last separator and some character between the
  separator and that dot is not a dot; otherwise the extension is empty.
\<close>

definition splitext :: "string \<Rightarrow> string \<times> string" where
  "splitext p =
     (let sepIndex = rfind p CHR ''/'';
          dotIndex = rfind p CHR ''.''
      in if sepIndex < dotIndex \<and>
            list_ex (\<lambda>ch. ch \<noteq> CHR ''.'')
              (take (nat (dotIndex - (sepIndex + 1))) (drop (nat (sepIndex + 1)) p))
         then (take (nat dotIndex) p, drop (nat dotIndex) p)
         else (p, []))"

text \<open>The decimal digits of a natural number, as an f-string renders an \<open>int\<close>.\<close>

definition digit_char :: "nat \<Rightarrow> char" where
  "digit_char d = ''0123456789'' ! d"

fun str_nat :: "nat \<Rightarrow> string" where
  "str_nat n =
     (if n < 10 then [digit_char n] else str_nat (n div 10) @ [digit_char (n mod 10)])"

subsection \<open>_save_to_file\<close>

text \<open>
  The method \<open>_save_to_file(self, batch_number, result)\<close>. With \<open>self.save_to_file\<close> equal to
  \<open>None\<close>, \<open>os.path.splitext\<close> raises \<open>TypeError\<close>; \<open>process\<close> never calls it so.
\<close>

definition batch_file_name :: "string \<Rightarrow> nat \<Rightarrow> string" where
  "batch_file_name path batch_number =
     (let (file_name, ext) = splitext path
      in file_name @ ''_batch'' @ str_nat batch_number @ ext)"

definition save_to_file_method ::
  "('b, 'd) batch_processor \<Rightarrow> nat \<Rightarrow> 'r \<Rightarrow> error + ('b, 'r, 'e, 'd) event list" where
  "save_to_file_method self batch_number res =
     (case save_to_file self of
        None \<Rightarrow> Inl TypeError
      | Some path \<Rightarrow>
          (let batch_file = batch_file_name path batch_number
           in Inr [File_write batch_file res 4, Saved_msg batch_number batch_file]))"

subsection \<open>process\<close>

text \<open>
  The two local variables of \<open>process\<close> that live across iterations: the list \<open>results\<close>
  and the variable \<open>result\<close>, which is unbound (\<open>None\<close>) until the first successful call
  and afterwards holds the value returned by the latest successful call.
\<close>

record 'r locals =
  results :: "'r list"
  result :: "'r option"

text \<open>
  The retry loop \<open>for attempt in range(self.retries + 1)\<close>, over the attempt numbers still
  to run. It returns \<open>Some r\<close> when a call returned \<open>r\<close> (then \<open>result = r\<close>, \<open>r\<close> is appended
  to \<open>results\<close>, \<open>success\<close> is true and the loop is left), and \<open>None\<close> when the attempts ran
  out with \<open>success\<close> still false. After every failed attempt, the last one too, the error is
  printed and the delay slept.
\<close>

fun retry_loop ::
  "('b, 'd) batch_processor \<Rightarrow> ('b, 'r, 'e) proc \<Rightarrow> nat \<Rightarrow> 'b list \<Rightarrow> nat list
     \<Rightarrow> 'r option \<times> ('b, 'r, 'e, 'd) event list" where
  "retry_loop self func i batch [] = (None, [])"
| "retry_loop self func i batch (attempt # rest) =
     (case func i attempt batch of
        Return r \<Rightarrow> (Some r, [Attempt_msg (i + 1) (attempt + 1), Call i attempt batch])
      | Raise e \<Rightarrow>
          (let (res, evs) = retry_loop self func i batch rest
           in (res, [Attempt_msg (i + 1) (attempt + 1), Call i attempt batch,
                     Error_msg e (retry_delay self), Sleep i (retry_delay self)] @ evs)))"

text \<open>\<open>range(n)\<close> for a Python integer \<open>n\<close>: empty when \<open>n \<le> 0\<close>.\<close>

definition range_py :: "int \<Rightarrow> nat list" where
  "range_py n = [0..<nat n]"

text \<open>The truth value of \<open>self.save_to_file\<close>: \<open>None\<close> and the empty string are false.\<close>

definition save_enabled :: "('b, 'd) batch_processor \<Rightarrow> bool" where
  "save_enabled self = (case save_to_file self of None \<Rightarrow> False | Some path \<Rightarrow> path \<noteq> [])"

text \<open>
  One iteration of \<open>for i, batch in enumerate(batches)\<close>: the retry loop, the message when
  \<open>success\<close> is false, and then, whatever \<open>success\<close> is, the call
  \<open>self._save_to_file(i + 1, result)\<close> when \<open>self.save_to_file\<close> is true. Reading \<open>result\<close>
  while it is unbound raises \<open>UnboundLocalError\<close>, which leaves \<open>process\<close>. The iteration
  returns the exception that left it, if any, the local variables and the effects.
\<close>

definition process_batch ::
  "('b, 'd) batch_processor \<Rightarrow> ('b, 'r, 'e) proc \<Rightarrow> nat \<Rightarrow> 'b list \<Rightarrow> 'r locals
     \<Rightarrow> error option \<times> 'r locals \<times> ('b, 'r, 'e, 'd) event list" where
  "process_batch self func i batch st =
     (let (res, evs) = retry_loop self func i batch (range_py (retries self + 1));
          (st1, evs1) =
            (case res of
               Some r \<Rightarrow> (st\<lparr>results := results st @ [r], result := Some r\<rparr>, evs)
             | None \<Rightarrow> (st, evs @ [Failed_msg (i + 1) (retries self)]))
      in if save_enabled self then
           (case result st1 of
              None \<Rightarrow> (Some UnboundLocalError, st1, evs1)
            | Some r \<Rightarrow>
                (case save_to_file_method self (i + 1) r of
                   Inl err \<Rightarrow> (Some err, st1, evs1)
                 | Inr evs2 \<Rightarrow> (None, st1, evs1 @ evs2)))
         else (None, st1, evs1))"

fun process_loop ::
  "('b, 'd) batch_processor \<Rightarrow> ('b, 'r, 'e) proc \<Rightarrow> nat \<Rightarrow> 'b list list \<Rightarrow> 'r locals
     \<Rightarrow> error option \<times> 'r locals \<times> ('b, 'r, 'e, 'd) event list" where
  "process_loop self func i [] st = (None, st, [])"
| "process_loop self func i (batch # rest) st =
     (case process_batch self func i batch st of
        (Some err, st1, evs) \<Rightarrow> (Some err, st1, evs)
      | (None, st1, evs) \<Rightarrow>
          (case process_loop self func (Suc i) rest st1 of
             (err, st2, evs') \<Rightarrow> (err, st2, evs @ evs')))"

text \<open>
  \<open>tqdm(batches, desc="Processing Batches")\<close> yields the batches of the generator it wraps,
  unchanged and in order; the bar it draws on the standard error stream is paced by the
  clock and is not part of the model.
\<close>

definition tqdm :: "'a list \<Rightarrow> 'a list" where
  "tqdm batches = batches"

text \<open>
  \<open>process(self, func)\<close>: the value returned, or the exception raised to the caller,
  together with the effects of the run.
\<close>

definition process ::
  "('b, 'd) batch_processor \<Rightarrow> ('b, 'r, 'e) proc
     \<Rightarrow> (error + 'r list) \<times> ('b, 'r, 'e, 'd) event list" where
  "process self func =
     (let batches = get_batches self;
          batches = (if progress self then tqdm batches else batches)
      in case process_loop self func 0 batches \<lparr>results = [], result = None\<rparr> of
           (Some err, st, evs) \<Rightarrow> (Inl err, evs)
         | (None, st, evs) \<Rightarrow> (Inr (results st), evs @ [Complete_msg]))"

subsection \<open>The decorator batch_process\<close>

text \<open>
  \<open>batch_process(batch_size, progress, save_to_file, retries, retry_delay)\<close> returns a
  decorator; the decorated function is \<open>wrapper\<close>, which builds a \<open>BatchProcessor\<close> from
  the iterable and the captured options and returns \<open>processor.process(func)\<close>.
\<close>

definition batch_process ::
  "int \<Rightarrow> bool \<Rightarrow> string option \<Rightarrow> int \<Rightarrow> 'd \<Rightarrow> ('b, 'r, 'e) proc \<Rightarrow> 'b list
     \<Rightarrow> (error + 'r list) \<times> ('b, 'r, 'e, 'd) event list" where
  "batch_process bsz prog sv rt dl func it =
     (let processor = BatchProcessor it bsz prog sv rt dl
      in process processor func)"

subsection \<open>Reading the effects of a run\<close>





section \<open>Properties of the batcher\<close>

lemma concat_get_batches_loop:
  "concat (get_batches_loop bsz batch xs) = batch @ xs"
  by (induction xs arbitrary: batch) (simp_all add: Let_def)

lemma get_batches_loop_empty_iff:
  "get_batches_loop bsz batch xs = [] \<longleftrightarrow> batch = [] \<and> xs = []"
  by (induction xs arbitrary: batch) (simp_all add: Let_def)

lemma ceil_one: "0 < m \<Longrightarrow> m < n \<Longrightarrow> (m + n - Suc 0) div n = Suc 0" for m n :: nat
proof -
  assume a: "0 < m" "m < n"
  then obtain m' where m: "m = Suc m'" by (cases m) auto
  have n0: "n \<noteq> 0" using a by simp
  have "m' < n" using a m by simp
  then have "m' div n = 0" by simp
  then have "(m' + n) div n = Suc 0" using div_add_self2 [OF n0, of m'] by simp
  then show ?thesis using m by simp
qed

lemma ceil_step:
  "0 < n \<Longrightarrow> (n + k + n - Suc 0) div n = Suc ((k + n - Suc 0) div n)" for k n :: nat
proof -
  assume a: "0 < n"
  then have n0: "n \<noteq> 0" by simp
  have e: "n + k + n - Suc 0 = (k + n - Suc 0) + n" using a by simp
  show ?thesis unfolding e using div_add_self2 [OF n0, of "k + n - Suc 0"] by simp
qed

text \<open>The number of batches, with a partial batch of fewer than \<open>n\<close> items pending.\<close>

lemma length_get_batches_loop:
  assumes "0 < n" and "length batch < n"
  shows "length (get_batches_loop (int n) batch xs)
           = (length batch + length xs + n - Suc 0) div n"
  using assms
proof (induction xs arbitrary: batch)
  case Nil
  then show ?case by (cases "batch = []") (simp_all add: ceil_one)
next
  case (Cons x xs)
  show ?case
  proof (cases "Suc (length batch) = n")
    case True
    have "length (get_batches_loop (int n) [] xs) = (length xs + n - Suc 0) div n"
      using Cons.IH [of "[]"] Cons.prems by simp
    moreover have "length batch + length (x # xs) = n + length xs"
      using True by simp
    then have "(length batch + length (x # xs) + n - Suc 0) div n
                     = Suc ((length xs + n - Suc 0) div n)"
      using ceil_step [OF Cons.prems(1), of "length xs"] by (simp only:)
    ultimately show ?thesis using True by (simp add: Let_def)
  next
    case False
    then have "length (batch @ [x]) < n" using Cons.prems by simp
    then show ?thesis using False Cons.IH [of "batch @ [x]"] Cons.prems(1)
      by (simp add: Let_def)
  qed
qed

text \<open>Every batch but the last is full.\<close>

lemma full_get_batches_loop:
  assumes "length batch < n"
    and "Suc i < length (get_batches_loop (int n) batch xs)"
  shows "length (get_batches_loop (int n) batch xs ! i) = n"
  using assms
proof (induction xs arbitrary: batch i)
  case Nil
  then show ?case by (simp split: if_splits)
next
  case (Cons x xs)
  show ?case
  proof (cases "Suc (length batch) = n")
    case True
    then have e: "get_batches_loop (int n) batch (x # xs)
                    = (batch @ [x]) # get_batches_loop (int n) [] xs"
      by (simp add: Let_def)
    show ?thesis
    proof (cases i)
      case 0
      then show ?thesis using e True by simp
    next
      case (Suc j)
      have "length ([]::'a list) < n" using True by simp
      moreover have "Suc j < length (get_batches_loop (int n) [] xs)"
        using Cons.prems(2) e Suc by simp
      ultimately have "length (get_batches_loop (int n) [] xs ! j) = n"
        by (rule Cons.IH)
      then show ?thesis using e Suc by simp
    qed
  next
    case False
    then have e: "get_batches_loop (int n) batch (x # xs)
                    = get_batches_loop (int n) (batch @ [x]) xs"
      by (simp add: Let_def)
    have "length (batch @ [x]) < n" using False Cons.prems(1) by simp
    moreover have "Suc i < length (get_batches_loop (int n) (batch @ [x]) xs)"
      using Cons.prems(2) e by simp
    ultimately have "length (get_batches_loop (int n) (batch @ [x]) xs ! i) = n"
      by (rule Cons.IH)
    then show ?thesis using e by simp
  qed
qed

text \<open>The last batch holds the remainder, or is full when there is none.\<close>

lemma last_get_batches_loop:
  assumes "length batch < n"
    and "get_batches_loop (int n) batch xs \<noteq> []"
  shows "length (last (get_batches_loop (int n) batch xs))
           = (if (length batch + length xs) mod n \<noteq> 0
              then (length batch + length xs) mod n else n)"
  using assms
proof (induction xs arbitrary: batch)
  case Nil
  then show ?case by (simp split: if_splits)
next
  case (Cons x xs)
  show ?case
  proof (cases "Suc (length batch) = n")
    case True
    then have e: "get_batches_loop (int n) batch (x # xs)
                    = (batch @ [x]) # get_batches_loop (int n) [] xs"
      by (simp add: Let_def)
    have "length batch + length (x # xs) = n + length xs"
      using True by simp
    then have m: "(length batch + length (x # xs)) mod n = length xs mod n"
      by (simp only: mod_add_self1)
    show ?thesis
    proof (cases "xs = []")
      case True
      then show ?thesis using e m \<open>Suc (length batch) = n\<close> by simp
    next
      case False
      then have ne: "get_batches_loop (int n) [] xs \<noteq> []"
        by (simp add: get_batches_loop_empty_iff)
      have "length ([]::'a list) < n" using True by simp
      then have "length (last (get_batches_loop (int n) [] xs))
                   = (if (length ([]::'a list) + length xs) mod n \<noteq> 0
                      then (length ([]::'a list) + length xs) mod n else n)"
        using ne by (rule Cons.IH)
      then show ?thesis using e m ne by simp
    qed
  next
    case False
    then have e: "get_batches_loop (int n) batch (x # xs)
                    = get_batches_loop (int n) (batch @ [x]) xs"
      by (simp add: Let_def)
    have "length (batch @ [x]) < n" using False Cons.prems(1) by simp
    moreover have "get_batches_loop (int n) (batch @ [x]) xs \<noteq> []"
      using Cons.prems(2) e by simp
    ultimately have "length (last (get_batches_loop (int n) (batch @ [x]) xs))
                   = (if (length (batch @ [x]) + length xs) mod n \<noteq> 0
                      then (length (batch @ [x]) + length xs) mod n else n)"
      by (rule Cons.IH)
    then show ?thesis using e by simp
  qed
qed

lemma sum_length_concat: "sum_list (map length xss) = length (concat xss)"
  by (induction xss) simp_all

lemma div_unique_int:
  "a = b * q + r \<Longrightarrow> 0 \<le> r \<Longrightarrow> r < b \<Longrightarrow> a div b = q" for a b q r :: int
proof -
  assume a: "a = b * q + r" and r: "0 \<le> r" "r < b"
  then have b: "b \<noteq> 0" by auto
  have "(b * q + r) div b = q + r div b" using b by (rule div_mult_self4)
  then show ?thesis using a r by simp
qed

lemma neg_div_ceil: "0 < b \<Longrightarrow> - (- a div b) = (a + b - 1) div b" for a b :: int
proof -
  assume b: "0 < b"
  define q where "q = a div b"
  define r where "r = a mod b"
  have a: "a = b * q + r" by (simp add: q_def r_def)
  have r: "0 \<le> r" "r < b" using b by (simp_all add: r_def)
  show ?thesis
  proof (cases "r = 0")
    case True
    have "- a = b * (- q) + 0" using a True by simp
    then have 1: "- a div b = - q" by (rule div_unique_int) (use b in simp_all)
    have "a + b - 1 = b * q + (b - 1)" using a True by simp
    then have "(a + b - 1) div b = q" by (rule div_unique_int) (use b in simp_all)
    then show ?thesis using 1 by simp
  next
    case False
    have "- a = b * (- q - 1) + (b - r)" using a by (simp add: algebra_simps)
    then have 1: "- a div b = - q - 1" by (rule div_unique_int) (use r False in simp_all)
    have "a + b - 1 = b * (q + 1) + (r - 1)" using a by (simp add: algebra_simps)
    then have "(a + b - 1) div b = q + 1" by (rule div_unique_int) (use r False in simp_all)
    then show ?thesis using 1 by simp
  qed
qed

text \<open>The count \<open>(l + n - 1) div n\<close> is the ceiling of the quotient \<open>l / n\<close>.\<close>

lemma ceil_div_nat:
  assumes "0 < n"
  shows "int ((l + n - Suc 0) div n) = \<lceil>real l / real n\<rceil>"
proof -
  have "\<lceil>real l / real n\<rceil> = \<lceil>(of_int (int l) :: real) / of_int (int n)\<rceil>" by simp
  also have "\<dots> = - (- int l div int n)" by (rule ceiling_divide_eq_div)
  also have "\<dots> = (int l + int n - 1) div int n"
    using assms by (simp add: neg_div_ceil)
  also have "\<dots> = int ((l + n - Suc 0) div n)" using assms
    by (simp add: zdiv_int of_nat_diff)
  finally show ?thesis by simp
qed

text \<open>
  Claim C3. For an input of length \<open>L\<close> and a batch size \<open>S > 0\<close>, \<open>get_batches\<close> yields
  \<open>ceil(L / S)\<close> batches; every batch except possibly the last has length \<open>S\<close>; the last
  batch has length \<open>L mod S\<close> if that is not zero and \<open>S\<close> otherwise; the lengths of the
  batches add up to \<open>L\<close>; and the batches concatenated in order are the input.
\<close>

theorem get_batches_segments:
  assumes "0 < batch_size self"
  shows "int (length (get_batches self))
           = \<lceil>real (length (iterable self)) / real_of_int (batch_size self)\<rceil>
       \<and> (\<forall>i. Suc i < length (get_batches self)
              \<longrightarrow> int (length (get_batches self ! i)) = batch_size self)
       \<and> (get_batches self \<noteq> []
              \<longrightarrow> int (length (last (get_batches self)))
                    = (if int (length (iterable self)) mod batch_size self \<noteq> 0
                       then int (length (iterable self)) mod batch_size self
                       else batch_size self))
       \<and> sum_list (map length (get_batches self)) = length (iterable self)
       \<and> concat (get_batches self) = iterable self"
proof -
  define n where "n = nat (batch_size self)"
  have n: "0 < n" and S: "batch_size self = int n" using assms by (simp_all add: n_def)
  have e: "get_batches self = get_batches_loop (int n) [] (iterable self)"
    by (simp add: get_batches_def S)
  have nil: "length ([]::'a list) < n" using n by simp
  have "length (get_batches self) = (length (iterable self) + n - Suc 0) div n"
    using length_get_batches_loop [OF n nil, of "iterable self"] e by simp
  then have 1: "int (length (get_batches self))
                  = \<lceil>real (length (iterable self)) / real_of_int (batch_size self)\<rceil>"
    using ceil_div_nat [OF n, of "length (iterable self)"] S by simp
  have 2: "\<forall>i. Suc i < length (get_batches self)
              \<longrightarrow> int (length (get_batches self ! i)) = batch_size self"
    using full_get_batches_loop [OF nil, of _ "iterable self"] e S by simp
  have 3: "get_batches self \<noteq> []
              \<longrightarrow> int (length (last (get_batches self)))
                    = (if int (length (iterable self)) mod batch_size self \<noteq> 0
                       then int (length (iterable self)) mod batch_size self
                       else batch_size self)"
  proof
    assume "get_batches self \<noteq> []"
    then have "length (last (get_batches self))
                 = (if length (iterable self) mod n \<noteq> 0
                    then length (iterable self) mod n else n)"
      using last_get_batches_loop [OF nil, of "iterable self"] e by simp
    then show "int (length (last (get_batches self)))
                 = (if int (length (iterable self)) mod batch_size self \<noteq> 0
                    then int (length (iterable self)) mod batch_size self
                    else batch_size self)"
      unfolding S by (simp add: zmod_int [symmetric] del: of_nat_mod)
  qed
  have 5: "concat (get_batches self) = iterable self"
    using concat_get_batches_loop [of "int n" "[]" "iterable self"] e by simp
  have 4: "sum_list (map length (get_batches self)) = length (iterable self)"
    by (simp add: sum_length_concat 5)
  show ?thesis using 1 2 3 4 5 by blast
qed

theorem get_batches_segments_witness:
  "0 < batch_size (BatchProcessor [1, 2, 3, 4, 5, 6, 7 :: nat] 3 False None 0 (1 :: nat))
   \<and> get_batches (BatchProcessor [1, 2, 3, 4, 5, 6, 7 :: nat] 3 False None 0 (1 :: nat))
       = [[1, 2, 3], [4, 5, 6], [7]]
   \<and> int (length (get_batches
         (BatchProcessor [1, 2, 3, 4, 5, 6, 7 :: nat] 3 False None 0 (1 :: nat))))
       = \<lceil>real (length [1, 2, 3, 4, 5, 6, 7 :: nat]) / real_of_int 3\<rceil>"
  using get_batches_segments
          [of "BatchProcessor [1, 2, 3, 4, 5, 6, 7 :: nat] 3 False None 0 (1 :: nat)"]
  by (simp add: BatchProcessor_def get_batches_def)

section \<open>Properties of the run\<close>

lemma range_py_nonneg: "0 \<le> n \<Longrightarrow> range_py (n + 1) = 0 # [1..<nat (n + 1)]"
  by (simp add: range_py_def upt_conv_Cons)


lemma range_py_neg: "n < 0 \<Longrightarrow> range_py (n + 1) = []"
  by (simp add: range_py_def)



lemma save_enabled_method:
  "save_enabled self \<Longrightarrow> \<exists>evs. save_to_file_method self n r = Inr evs"
  by (auto simp: save_enabled_def save_to_file_method_def Let_def split: option.splits)





















text \<open>
  Claim C9. Calling the function decorated by \<open>batch_process\<close> on a sequence gives the same
  outcome and the same effects as building a \<open>BatchProcessor\<close> with the same options and
  calling \<open>process\<close> with the function.
\<close>

theorem batch_process_equiv:
  "batch_process bsz prog sv rt dl func it
     = process (BatchProcessor it bsz prog sv rt dl) func"
  by (simp add: batch_process_def)

lemma get_batches_loop_nonpositive:
  "bsz \<le> 0 \<Longrightarrow> get_batches_loop bsz batch xs
                 = (if batch @ xs = [] then [] else [batch @ xs])"
  by (induction xs arbitrary: batch) (simp_all add: Let_def)

lemma retry_loop_first_call:
  "Call i a batch \<in> set (snd (retry_loop self func i batch (a # as)))"
  by (cases "func i a batch") (simp_all split: prod.splits)

lemma process_batch_first_call:
  assumes "0 \<le> retries self"
    and "process_batch self func i batch st = (err, st', evs)"
  shows "Call i 0 batch \<in> set evs"
proof -
  obtain res revs where r: "retry_loop self func i batch (range_py (retries self + 1)) = (res, revs)"
    by (cases "retry_loop self func i batch (range_py (retries self + 1))")
  have "Call i 0 batch \<in> set revs"
    using retry_loop_first_call [of i 0 batch self func "[1..<nat (retries self + 1)]"] r
      range_py_nonneg [OF assms(1)] by simp
  then show ?thesis
    using assms(2) r
    by (auto simp: process_batch_def save_to_file_method_def Let_def
             split: option.splits sum.splits if_splits)
qed

lemma process_unfold:
  "process self func =
     (case process_loop self func 0 (get_batches self) \<lparr>results = [], result = None\<rparr> of
        (Some err, st, evs) \<Rightarrow> (Inl err, evs)
      | (None, st, evs) \<Rightarrow> (Inr (results st), evs @ [Complete_msg]))"
  by (simp add: process_def tqdm_def Let_def)

text \<open>
  Claim C7, as amended. A non-positive batch size is not rejected: the constructor stores
  it unchecked and \<open>get_batches\<close> yields the whole input as one batch when the input is not
  empty, and no batch when it is; with a non-negative retry count \<open>process\<close> then invokes
  the function on that one batch.
\<close>

theorem nonpositive_batch_size_one_batch:
  fixes self :: "('b, 'd) batch_processor" and func :: "('b, 'r, 'e) proc"
  assumes "batch_size self \<le> 0"
  shows "get_batches self = (if iterable self = [] then [] else [iterable self])
       \<and> (iterable self \<noteq> [] \<and> 0 \<le> retries self
            \<longrightarrow> Call 0 0 (iterable self) \<in> set (snd (process self func)))"
proof -
  have g: "get_batches self = (if iterable self = [] then [] else [iterable self])"
    using get_batches_loop_nonpositive [OF assms, of "[]" "iterable self"]
    by (simp add: get_batches_def)
  have "Call 0 0 (iterable self) \<in> set (snd (process self func))"
    if ne: "iterable self \<noteq> []" and rt: "0 \<le> retries self"
  proof -
    obtain e1 st1 evs1 where pb:
      "process_batch self func 0 (iterable self) \<lparr>results = [], result = None\<rparr>
         = (e1, st1, evs1)"
      by (cases "process_batch self func 0 (iterable self) \<lparr>results = [], result = None\<rparr>")
    have c: "Call 0 0 (iterable self) \<in> set evs1"
      using rt pb by (rule process_batch_first_call)
    have "get_batches self = [iterable self]" using g ne by simp
    then show ?thesis using pb c
      by (cases e1) (simp_all add: process_unfold)
  qed
  then show ?thesis using g by blast
qed

theorem nonpositive_batch_size_one_batch_witness:
  "batch_size (BatchProcessor [1, 2, 3 :: nat] 0 False None 0 (1 :: nat)) \<le> 0
   \<and> get_batches (BatchProcessor [1, 2, 3 :: nat] 0 False None 0 (1 :: nat)) = [[1, 2, 3]]
   \<and> Call 0 0 [1, 2, 3] \<in> set (snd (process
         (BatchProcessor [1, 2, 3 :: nat] 0 False None 0 (1 :: nat))
         (\<lambda>i a b. (Return (map Suc b) :: (nat list, string) outcome))))"
  using nonpositive_batch_size_one_batch
          [of "BatchProcessor [1, 2, 3 :: nat] 0 False None 0 (1 :: nat)"
              "\<lambda>i a b. (Return (map Suc b) :: (nat list, string) outcome)"]
  by (simp add: BatchProcessor_def)

text \<open>
  The claim as first stated fails: with batch size \<open>-1\<close> the input \<open>[1, 2]\<close> is yielded
  as one batch and the function is invoked on it.
\<close>

theorem nonpositive_batch_size_counterexample:
  "batch_size (BatchProcessor [1, 2 :: nat] (- 1) False None 0 (1 :: nat)) \<le> 0
   \<and> get_batches (BatchProcessor [1, 2 :: nat] (- 1) False None 0 (1 :: nat)) = [[1, 2]]
   \<and> process (BatchProcessor [1, 2 :: nat] (- 1) False None 0 (1 :: nat))
        (\<lambda>i a b. (Return (map Suc b) :: (nat list, string) outcome))
      = (Inr [[2, 3]], [Attempt_msg 1 1, Call 0 0 [1, 2], Complete_msg])"
  by code_simp

text \<open>
  Claim C1 at a failing input: two batches, a persistence path, no retry; the function
  returns on the first batch and raises on the second. The second batch is reported as
  failed, and then the result of the first batch is written to the file of the second.
\<close>

theorem failed_batch_writes_earlier_result:
  "process (BatchProcessor [1, 2 :: nat] 1 False (Some ''out.json'') 0 (1 :: nat))
     (\<lambda>i a b. if i = 0 then Return (map Suc b) else Raise ''boom'')
   = (Inr [[2]],
      [Attempt_msg 1 1, Call 0 0 [1],
       File_write ''out_batch1.json'' [2] 4, Saved_msg 1 ''out_batch1.json'',
       Attempt_msg 2 1, Call 1 0 [2], Error_msg ''boom'' 1, Sleep 1 1, Failed_msg 2 0,
       File_write ''out_batch2.json'' [2] 4, Saved_msg 2 ''out_batch2.json'',
       Complete_msg])"
  by code_simp

text \<open>
  Claim C2 at a failing input: two batches, a persistence path, no retry; the function
  raises on the first batch and would return on the second. After the failure report of
  the first batch the run raises \<open>UnboundLocalError\<close>; the second batch is never processed.
\<close>

theorem exhausted_first_batch_raises:
  "process (BatchProcessor [1, 2 :: nat] 1 False (Some ''out.json'') 0 (1 :: nat))
     (\<lambda>i a b. if i = 0 then Raise ''boom'' else Return (map Suc b))
   = (Inl UnboundLocalError,
      [Attempt_msg 1 1, Call 0 0 [1], Error_msg ''boom'' 1, Sleep 0 1, Failed_msg 1 0])"
  by code_simp

text \<open>
  Claim C5 at a failing input: three batches, a persistence path, two retries; the function
  raises on every attempt of the first batch (\<open>k = 0\<close>) and returns on the others. The
  function is invoked three times for the first batch and the failure is reported once,
  but then the run raises \<open>UnboundLocalError\<close>: no result sequence is returned and the
  other batches are not processed.
\<close>

theorem always_failing_first_batch_raises:
  "process (BatchProcessor [1, 2, 3 :: nat] 1 False (Some ''out.json'') 2 (1 :: nat))
     (\<lambda>i a b. if i = 0 then Raise ''boom'' else Return (map Suc b))
   = (Inl UnboundLocalError,
      [Attempt_msg 1 1, Call 0 0 [1], Error_msg ''boom'' 1, Sleep 0 1,
       Attempt_msg 1 2, Call 0 1 [1], Error_msg ''boom'' 1, Sleep 0 1,
       Attempt_msg 1 3, Call 0 2 [1], Error_msg ''boom'' 1, Sleep 0 1,
       Failed_msg 1 2])"
  by code_simp

text \<open>
  Claim C10 at a failing input: two batches, a persistence path, a retry count of \<open>-1\<close>.
  The function is never invoked and the first batch is reported as failed, but then the
  run raises \<open>UnboundLocalError\<close>: the second batch is not reported and no result sequence
  is returned.
\<close>

theorem negative_retries_raises:
  "process (BatchProcessor [1, 2 :: nat] 1 False (Some ''out.json'') (- 1) (1 :: nat))
     (\<lambda>i a b. (Return (map Suc b) :: (nat list, string) outcome))
   = (Inl UnboundLocalError, [Failed_msg 1 (- 1)])"
  by code_simp

section \<open>The destination of a persisted result\<close>








lemma splitext_hidden_file: "splitext ''.json'' = (''.json'', '''')"
  by code_simp

section \<open>Runs without a persistence path\<close>

lemma process_batch_no_save:
  "\<not> save_enabled self \<Longrightarrow> \<exists>st' evs. process_batch self func i batch st = (None, st', evs)"
  by (simp add: process_batch_def Let_def split: prod.splits option.splits)

lemma process_loop_no_save:
  assumes "\<not> save_enabled self"
  shows "\<exists>st' evs. process_loop self func i bs st = (None, st', evs)"
proof (induction bs arbitrary: i st)
  case Nil
  then show ?case by simp
next
  case (Cons batch rest)
  obtain st1 evs1 where pb: "process_batch self func i batch st = (None, st1, evs1)"
    using process_batch_no_save [OF assms, of func i batch st] by (elim exE)
  obtain st2 evs2 where pl: "process_loop self func (Suc i) rest st1 = (None, st2, evs2)"
    using Cons.IH [of "Suc i" st1] by (elim exE)
  show ?case using pb pl by simp
qed

text \<open>Without a persistence path, no exception leaves \<open>process\<close>.\<close>

lemma process_no_save_returns:
  assumes "\<not> save_enabled self"
  shows "\<exists>rs lg. process self func = (Inr rs, lg)"
proof -
  obtain st' evs where
    "process_loop self func 0 (get_batches self) \<lparr>results = [], result = None\<rparr>
       = (None, st', evs)"
    using process_loop_no_save [OF assms, of func 0 "get_batches self"
                                  "\<lparr>results = [], result = None\<rparr>"]
    by (elim exE)
  then show ?thesis by (simp add: process_unfold)
qed

lemma process_loop_every_batch_called:
  assumes "0 \<le> retries self"
    and "process_loop self func i bs st = (None, st', evs)"
    and "j < length bs"
  shows "Call (i + j) 0 (bs ! j) \<in> set evs"
  using assms(2,3)
proof (induction bs arbitrary: i j st st' evs)
  case Nil
  then show ?case by simp
next
  case (Cons batch rest)
  obtain e1 st1 evs1 where pb: "process_batch self func i batch st = (e1, st1, evs1)"
    by (cases "process_batch self func i batch st")
  obtain e2 st2 evs2 where pl: "process_loop self func (Suc i) rest st1 = (e2, st2, evs2)"
    by (cases "process_loop self func (Suc i) rest st1")
  have e1: "e1 = None" using Cons.prems(1) pb by (cases e1) simp_all
  then have r: "e2 = None" "evs = evs1 @ evs2" using Cons.prems(1) pb pl by simp_all
  show ?case
  proof (cases j)
    case 0
    have "Call i 0 batch \<in> set evs1" using assms(1) pb by (rule process_batch_first_call)
    then show ?thesis using 0 r by simp
  next
    case (Suc j')
    then have "j' < length rest" using Cons.prems(2) by simp
    moreover have "process_loop self func (Suc i) rest st1 = (None, st2, evs2)"
      using pl r by simp
    ultimately have "Call (Suc i + j') 0 (rest ! j') \<in> set evs2" by (rule Cons.IH [rotated])
    then show ?thesis using Suc r by simp
  qed
qed

text \<open>
  Without a persistence path and with a non-negative retry count, every batch is attempted
  whatever happened to the batches before it.
\<close>

lemma process_no_save_every_batch_called:
  assumes "\<not> save_enabled self" and "0 \<le> retries self" and "k < length (get_batches self)"
  shows "Call k 0 (get_batches self ! k) \<in> set (snd (process self func))"
proof -
  obtain st' evs where l:
    "process_loop self func 0 (get_batches self) \<lparr>results = [], result = None\<rparr>
       = (None, st', evs)"
    using process_loop_no_save [OF assms(1), of func 0 "get_batches self"
                                  "\<lparr>results = [], result = None\<rparr>"]
    by (elim exE)
  have "Call (0 + k) 0 (get_batches self ! k) \<in> set evs"
    using assms(2) l assms(3) by (rule process_loop_every_batch_called)
  then show ?thesis using l by (simp add: process_unfold)
qed

lemma process_batch_negative_retries:
  assumes "retries self < 0" and "\<not> save_enabled self"
  shows "process_batch self func i batch st = (None, st, [Failed_msg (i + 1) (retries self)])"
  using assms by (simp add: process_batch_def range_py_neg)

lemma process_loop_negative_retries:
  assumes "retries self < 0" and "\<not> save_enabled self"
  shows "process_loop self func i bs st
           = (None, st, map (\<lambda>j. Failed_msg (j + 1) (retries self)) [i..<i + length bs])"
proof (induction bs arbitrary: i)
  case Nil
  then show ?case by simp
next
  case (Cons batch rest)
  have "i < i + length (batch # rest)" by simp
  then have "[i..<i + length (batch # rest)] = i # [Suc i..<i + length (batch # rest)]"
    by (rule upt_conv_Cons)
  then have u: "[i..<i + length (batch # rest)] = i # [Suc i..<Suc i + length rest]"
    by simp
  show ?case
    unfolding u
    using process_batch_negative_retries [OF assms, of func i batch st] Cons.IH [of "Suc i"]
    by simp
qed

text \<open>
  Without a persistence path, a negative retry count makes the run report every batch as
  failed, never invoke the function, and return the empty list.
\<close>

lemma process_negative_retries_no_save:
  assumes "retries self < 0" and "\<not> save_enabled self"
  shows "process self func
           = (Inr [], map (\<lambda>j. Failed_msg (j + 1) (retries self))
                        [0..<length (get_batches self)] @ [Complete_msg])"
  using process_loop_negative_retries [OF assms, of func 0 "get_batches self"]
  by (simp add: process_unfold)

end
